theory Spec2Isabelle
  imports Main "HOL-Library.Word"
begin

section \<open>Cell references: \<open>parseRef\<close>\<close>

text \<open>
  The embedding follows \<^verbatim>\<open>src/src/XlsxCell.h\<close>. A \<^verbatim>\<open>const char*\<close> is modelled by the
  list of the characters that stand before its terminating NUL, so the end of the list is
  the terminator the C loops test for. The C type \<^verbatim>\<open>int\<close> is a 32-bit word: \<open>+\<close> and
  \<open>*\<close> wrap around, and \<open>sint\<close> reads the signed value. (C++ leaves signed overflow
  undefined; the wrap is what two's complement arithmetic gives. The statements below
  that depend on the size of the numbers say so, with the bound \<open>2^31\<close>.)
\<close>

type_synonym c_int = "32 word"

text \<open>
  \<^verbatim>\<open>Rcpp::stop\<close> raises an R error that aborts the read; \<^verbatim>\<open>std::vector::at\<close> throws
  \<^verbatim>\<open>std::out_of_range\<close>. Both are values of the error type.
\<close>

datatype error =
    Invalid_character char string
  | Lacks_ref_attribute
  | Out_of_range int nat

text \<open>The tests \<^verbatim>\<open>*cur >= '0' && *cur <= '9'\<close> and \<^verbatim>\<open>*cur >= 'A' && *cur <= 'Z'\<close>.\<close>

definition is_digit :: "char \<Rightarrow> bool" where
  "is_digit c = (of_char (CHR ''0'') \<le> (of_char c :: nat) \<and> (of_char c :: nat) \<le> of_char (CHR ''9''))"

definition is_upper :: "char \<Rightarrow> bool" where
  "is_upper c = (of_char (CHR ''A'') \<le> (of_char c :: nat) \<and> (of_char c :: nat) \<le> of_char (CHR ''Z''))"

text \<open>
  The body of the \<^verbatim>\<open>for\<close> loop of \<^verbatim>\<open>parseRef\<close>: \<open>cur\<close> is the rest of the string still to
  be scanned, \<open>ref\<close> the whole reference (it is only used in the error message).
\<close>

fun parseRef_loop :: "string \<Rightarrow> string \<Rightarrow> c_int \<Rightarrow> c_int \<Rightarrow> error + (c_int \<times> c_int)" where
  "parseRef_loop ref [] col row = Inr (row - 1, col - 1)"
| "parseRef_loop ref (c # cur) col row =
     (if is_digit c then
        parseRef_loop ref cur col (row * 10 + (of_char c - of_char (CHR ''0'')))
      else if is_upper c then
        parseRef_loop ref cur (26 * col + (of_char c - of_char (CHR ''A'') + 1)) row
      else Inl (Invalid_character c ref))"

definition parseRef :: "string \<Rightarrow> error + (c_int \<times> c_int)" where
  "parseRef ref = parseRef_loop ref ref 0 0"

subsection \<open>The accumulation rule in the words of the specification\<close>

text \<open>
  The specification describes the scan as two accumulations over the whole string: every
  digit goes into the row as \<open>row * 10 + digit\<close>, every uppercase letter into the column
  as \<open>col * 26 + (letter - 'A' + 1)\<close>. These are the one-indexed numbers, here without
  a bound.
\<close>

definition spec_row_step :: "nat \<Rightarrow> char \<Rightarrow> nat" where
  "spec_row_step row c = (if is_digit c then row * 10 + (of_char c - of_char (CHR ''0'')) else row)"

definition spec_col_step :: "nat \<Rightarrow> char \<Rightarrow> nat" where
  "spec_col_step col c =
     (if is_upper c then col * 26 + (of_char c - of_char (CHR ''A'') + 1) else col)"

definition spec_row :: "string \<Rightarrow> nat" where
  "spec_row ref = foldl spec_row_step 0 ref"

definition spec_col :: "string \<Rightarrow> nat" where
  "spec_col ref = foldl spec_col_step 0 ref"

definition ref_char :: "char \<Rightarrow> bool" where
  "ref_char c = (is_digit c \<or> is_upper c)"

text \<open>The first character outside \<open>[A-Z0-9]\<close>, if there is one.\<close>

definition first_bad :: "string \<Rightarrow> char option" where
  "first_bad ref = find (\<lambda>c. \<not> ref_char c) ref"

subsection \<open>Building a reference from coordinates\<close>

text \<open>
  The reference-building function \<open>build\<close> of the round-trip property is not in the
  sources. It is modelled as the conventional inverse of the encoding: the one-indexed
  column in bijective base 26 with the letters \<open>A\<close> to \<open>Z\<close>, then the one-indexed row
  in decimal.
\<close>

text \<open>
  Modelled from the spec: the column letters of \<open>build\<close>, which is not in the sources
  (\<open>1\<close> is \<open>A\<close>, \<open>26\<close> is \<open>Z\<close>, \<open>27\<close> is \<open>AA\<close>).
\<close>

function col_letters :: "nat \<Rightarrow> string" where
  "col_letters n =
     (if n = 0 then []
      else col_letters ((n - 1) div 26) @ [char_of (of_char (CHR ''A'') + (n - 1) mod 26)])"
  by pat_completeness auto
termination
  by (relation "measure id") (auto simp: div_le_dividend le_imp_less_Suc)

text \<open>
  Modelled from the spec: the row number of \<open>build\<close>, which is not in the sources, in
  decimal without leading zeros.
\<close>

function row_digits :: "nat \<Rightarrow> string" where
  "row_digits n =
     (if n < 10 then [char_of (of_char (CHR ''0'') + n)]
      else row_digits (n div 10) @ [char_of (of_char (CHR ''0'') + n mod 10)])"
  by pat_completeness auto
termination
  by (relation "measure id") auto

declare col_letters.simps [simp del] row_digits.simps [simp del]

text \<open>
  Modelled from the spec: \<open>build\<close>, which is not in the sources, takes the zero-indexed
  pair \<open>(row, col)\<close> to the column letters followed by the row number.
\<close>

definition build :: "int \<times> int \<Rightarrow> string" where
  "build p = col_letters (nat (snd p + 1)) @ row_digits (nat (fst p + 1))"

text \<open>The coordinates as signed numbers.\<close>

definition coordinates :: "c_int \<times> c_int \<Rightarrow> int \<times> int" where
  "coordinates p = (sint (fst p), sint (snd p))"

section \<open>The XML tree\<close>

text \<open>
  What the code reads of a \<^verbatim>\<open>rapidxml::xml_node\<close>: its name, its value (the text of the
  element), its attributes and its child elements, both in document order.
\<close>

datatype xml_node =
  Xml_node (node_name: string) (node_value: string)
    (attributes: "(string \<times> string) list") (children: "xml_node list")

text \<open>\<^verbatim>\<open>first_node(name)\<close>: the first child with that name, \<open>None\<close> for \<^verbatim>\<open>NULL\<close>.\<close>

definition first_node :: "string \<Rightarrow> xml_node \<Rightarrow> xml_node option" where
  "first_node name n = find (\<lambda>c. node_name c = name) (children n)"

text \<open>
  \<^verbatim>\<open>first_node(name)\<close> followed by \<^verbatim>\<open>next_sibling(name)\<close> until \<^verbatim>\<open>NULL\<close>: the children
  with that name, in sibling order.
\<close>

definition nodes_named :: "string \<Rightarrow> xml_node \<Rightarrow> xml_node list" where
  "nodes_named name n = filter (\<lambda>c. node_name c = name) (children n)"

text \<open>\<^verbatim>\<open>first_attribute(name)\<close>, read through \<^verbatim>\<open>value()\<close>.\<close>

definition first_attribute :: "string \<Rightarrow> xml_node \<Rightarrow> string option" where
  "first_attribute name n = map_option snd (find (\<lambda>a. fst a = name) (attributes n))"

section \<open>Rich text: \<open>parseString\<close>\<close>

text \<open>
  The loop over the \<^verbatim>\<open><r>\<close> children threads the flag \<open>found\<close> and the string \<open>out\<close>.
\<close>

fun parseString_runs :: "xml_node list \<Rightarrow> bool \<times> string \<Rightarrow> bool \<times> string" where
  "parseString_runs [] (found, out) = (found, out)"
| "parseString_runs (r # rs) (found, out) =
     (case first_node ''t'' r of
        None \<Rightarrow> parseString_runs rs (found, out)
      | Some t \<Rightarrow> parseString_runs rs (True, out @ node_value t))"

text \<open>The result is the returned flag paired with the final content of \<^verbatim>\<open>*out\<close>.\<close>

definition parseString :: "xml_node \<Rightarrow> bool \<times> string" where
  "parseString string =
     (let start = (case first_node ''t'' string of
                     None \<Rightarrow> (False, [])
                   | Some t \<Rightarrow> (True, node_value t))
      in parseString_runs (nodes_named ''r'' string) start)"

subsection \<open>Text resolution in the words of the specification\<close>

definition plain_text :: "xml_node \<Rightarrow> string option" where
  "plain_text string = map_option node_value (first_node ''t'' string)"

definition run_texts :: "xml_node \<Rightarrow> string list" where
  "run_texts string =
     List.map_filter (\<lambda>r. map_option node_value (first_node ''t'' r)) (nodes_named ''r'' string)"

definition resolveText :: "xml_node \<Rightarrow> string option" where
  "resolveText string =
     (if plain_text string = None \<and> run_texts string = [] then None
      else Some ((case plain_text string of None \<Rightarrow> [] | Some s \<Rightarrow> s) @ concat (run_texts string)))"

section \<open>Library functions\<close>

text \<open>
  \<^verbatim>\<open>strncmp\<close>: the difference of the first pair of characters that differ among the first
  \<open>n\<close>, the terminator counting as 0.
\<close>

fun strncmp :: "string \<Rightarrow> string \<Rightarrow> nat \<Rightarrow> int" where
  "strncmp s1 s2 0 = 0"
| "strncmp [] [] (Suc n) = 0"
| "strncmp [] (b # s2) (Suc n) = - int (of_char b)"
| "strncmp (a # s1) [] (Suc n) = int (of_char a)"
| "strncmp (a # s1) (b # s2) (Suc n) =
     (if a = b then strncmp s1 s2 n else int (of_char a) - int (of_char b))"

text \<open>
  \<^verbatim>\<open>atoi\<close>: white space is skipped, then an optional sign and the decimal digits that
  follow are read; the value is 0 when there is no digit. The result is an \<^verbatim>\<open>int\<close>. For
  a number that does not fit, which C leaves undefined, the model follows the GNU C
  library with a 64-bit \<^verbatim>\<open>long\<close>: \<^verbatim>\<open>atoi\<close> is \<^verbatim>\<open>(int) strtol(s, NULL, 10)\<close>, where
  \<^verbatim>\<open>strtol\<close> stops at \<^verbatim>\<open>LONG_MIN\<close> and \<^verbatim>\<open>LONG_MAX\<close> and the conversion to \<^verbatim>\<open>int\<close> keeps the
  low 32 bits.
\<close>

definition isspace :: "char \<Rightarrow> bool" where
  "isspace c = (of_char c = (32::nat) \<or> (9 \<le> (of_char c :: nat) \<and> (of_char c :: nat) \<le> 13))"

definition atoi_digits :: "string \<Rightarrow> int" where
  "atoi_digits s =
     foldl (\<lambda>a c. a * 10 + (int (of_char c) - int (of_char (CHR ''0'')))) 0 (takeWhile is_digit s)"

definition strtol :: "string \<Rightarrow> int" where
  "strtol s =
     (let n = (case dropWhile isspace s of
                 [] \<Rightarrow> 0
               | c # rest \<Rightarrow>
                   if c = CHR ''-'' then - atoi_digits rest
                   else if c = CHR ''+'' then atoi_digits rest
                   else atoi_digits (c # rest))
      in max (- (2 ^ 63)) (min (2 ^ 63 - 1) n))"

definition atoi :: "string \<Rightarrow> c_int" where
  "atoi s = word_of_int (strtol s)"

text \<open>\<^verbatim>\<open>std::vector::at\<close> with an \<^verbatim>\<open>int\<close> index: a negative index is out of range as well.\<close>

definition vector_at :: "'a list \<Rightarrow> int \<Rightarrow> error + 'a" where
  "vector_at xs i = (if 0 \<le> i \<and> i < int (length xs) then Inr (xs ! nat i)
              else Inl (Out_of_range i (length xs)))"

section \<open>Cells: \<open>XlsxCell\<close>\<close>

text \<open>The enumeration of \<^verbatim>\<open>CellType.h\<close>, by the names the code uses.\<close>

datatype CellType = CELL_BLANK | CELL_DATE | CELL_NUMERIC | CELL_TEXT

text \<open>
  \<^verbatim>\<open>Rcpp::warning\<close> does not stop the call: the warnings a call raises are returned with
  its result, in order.
\<close>

datatype warning =
    Unknown_type c_int c_int string
  | Invalid_string_id c_int c_int int

text \<open>
  The accessors \<open>asDouble\<close> and \<open>asDate\<close> return IEEE doubles: the result of the C
  library's \<^verbatim>\<open>atof\<close>, double arithmetic on it, and R's \<^verbatim>\<open>NA_REAL\<close>, which is one NaN
  among the doubles. This theory has no floating-point numbers, and the two accessors are
  not part of the embedding.
\<close>

datatype r_string = NA_STRING | CharSxp string

text \<open>
  The members \<^verbatim>\<open>cell_\<close> and \<^verbatim>\<open>location_\<close> (an identifier cannot end with an
  underscore here).
\<close>

record XlsxCell =
  cell :: xml_node
  location :: "c_int \<times> c_int"

text \<open>The constructor.\<close>

definition new_XlsxCell :: "xml_node \<Rightarrow> error + XlsxCell" where
  "new_XlsxCell node =
     (case first_attribute ''r'' node of
        None \<Rightarrow> Inl Lacks_ref_attribute
      | Some ref \<Rightarrow>
          (case parseRef ref of
             Inl e \<Rightarrow> Inl e
           | Inr loc \<Rightarrow> Inr \<lparr>cell = node, location = loc\<rparr>))"

definition row :: "XlsxCell \<Rightarrow> c_int" where
  "row c = fst (location c)"

definition col :: "XlsxCell \<Rightarrow> c_int" where
  "col c = snd (location c)"

definition asStdString :: "string list \<Rightarrow> XlsxCell \<Rightarrow> error + string" where
  "asStdString stringTable c =
     (case first_node ''v'' (cell c) of
        None \<Rightarrow> Inr ''[NULL]''
      | Some v \<Rightarrow>
          (let t = first_attribute ''t'' (cell c) in
           if t = None \<or> strncmp (the t) ''s'' 3 \<noteq> 0 then Inr (node_value v)
           else (let id = atoi (node_value v) in vector_at stringTable (sint id))))"

definition stringFromTable ::
  "string \<Rightarrow> string \<Rightarrow> string list \<Rightarrow> XlsxCell \<Rightarrow> error + (warning list \<times> r_string)" where
  "stringFromTable val na stringTable c =
     (let id = atoi val in
      if sint id < 0 \<or> sint id \<ge> sint (of_nat (length stringTable) :: c_int) then
        Inr ([Invalid_string_id (row c + 1) (col c + 1) (sint id)], NA_STRING)
      else
        (case vector_at stringTable (sint id) of
           Inl e \<Rightarrow> Inl e
         | Inr string \<Rightarrow> Inr ([], if string = na then NA_STRING else CharSxp string)))"

definition asCharSxp ::
  "string \<Rightarrow> string list \<Rightarrow> XlsxCell \<Rightarrow> error + (warning list \<times> r_string)" where
  "asCharSxp na stringTable c =
     (case first_node ''is'' (cell c) of
        Some is \<Rightarrow>
          (let (found, value) = parseString is in
           if \<not> found \<or> na = value then Inr ([], NA_STRING) else Inr ([], CharSxp value))
      | None \<Rightarrow>
          (case first_node ''v'' (cell c) of
             None \<Rightarrow> Inr ([], NA_STRING)
           | Some v \<Rightarrow>
               (let t = first_attribute ''t'' (cell c) in
                if t \<noteq> None \<and> strncmp (the t) ''s'' (length (the t)) = 0 then
                  stringFromTable (node_value v) na stringTable c
                else if na = node_value v then Inr ([], NA_STRING)
                else Inr ([], CharSxp (node_value v)))))"

definition type ::
  "string \<Rightarrow> string list \<Rightarrow> int set \<Rightarrow> XlsxCell \<Rightarrow> error + (warning list \<times> CellType)" where
  "type na stringTable dateStyles c =
     (let t = first_attribute ''t'' (cell c) in
      if t = None \<or> strncmp (the t) ''n'' 5 = 0 then
        (let s = first_attribute ''s'' (cell c);
             style = (if s = None then - 1 else atoi (the s))
         in Inr ([], if sint style \<in> dateStyles then CELL_DATE else CELL_NUMERIC))
      else if strncmp (the t) ''b'' 5 = 0 then Inr ([], CELL_NUMERIC)
      else if strncmp (the t) ''d'' 5 = 0 then Inr ([], CELL_TEXT)
      else if strncmp (the t) ''e'' 5 = 0 then Inr ([], CELL_BLANK)
      else if strncmp (the t) ''s'' 5 = 0 then
        (case first_node ''v'' (cell c) of
           None \<Rightarrow> Inr ([], CELL_BLANK)
         | Some v \<Rightarrow>
             (let id = atoi (node_value v) in
              case vector_at stringTable (sint id) of
                Inl e \<Rightarrow> Inl e
              | Inr string \<Rightarrow> Inr ([], if string = na then CELL_BLANK else CELL_TEXT)))
      else if strncmp (the t) ''str'' 5 = 0 then
        (case first_node ''v'' (cell c) of
           None \<Rightarrow> Inr ([], CELL_BLANK)
         | Some v \<Rightarrow> Inr ([], if na = node_value v then CELL_BLANK else CELL_TEXT))
      else if strncmp (the t) ''inlineStr'' 9 = 0 then Inr ([], CELL_TEXT)
      else Inr ([Unknown_type (row c + 1) (col c + 1) (the t)], CELL_TEXT))"

section \<open>Auxiliary definitions for the statements\<close>

text \<open>
  The tag of a numeric cell: the style index is \<^verbatim>\<open>-1\<close> without an \<^verbatim>\<open>s\<close> attribute and
  \<^verbatim>\<open>atoi\<close> of the attribute otherwise; the cell is a date when the index is a date style.
\<close>

definition numeric_tag :: "int set \<Rightarrow> XlsxCell \<Rightarrow> CellType" where
  "numeric_tag dateStyles c =
     (if (case first_attribute ''s'' (cell c) of None \<Rightarrow> - 1 | Some sv \<Rightarrow> sint (atoi sv))
           \<in> dateStyles
      then CELL_DATE else CELL_NUMERIC)"

text \<open>
  A cell element \<^verbatim>\<open><c r=ref t=t><v>v</v></c>\<close>, where the \<^verbatim>\<open>t\<close> attribute and the
  \<^verbatim>\<open>v\<close> child may be left out.
\<close>

definition c_node :: "string \<Rightarrow> string option \<Rightarrow> string option \<Rightarrow> xml_node" where
  "c_node ref t v =
     Xml_node ''c'' []
       ((''r'', ref) # (case t of None \<Rightarrow> [] | Some x \<Rightarrow> [(''t'', x)]))
       (case v of None \<Rightarrow> [] | Some x \<Rightarrow> [Xml_node ''v'' x [] []])"

section \<open>Properties of \<open>parseRef\<close>\<close>

lemma is_digit_not_upper: "is_digit c \<Longrightarrow> \<not> is_upper c"
  by (simp add: is_digit_def is_upper_def)

lemma parseRef_loop_steps:
  "parseRef_loop ref cur (of_nat cl) (of_nat rw) =
     (case find (\<lambda>c. \<not> ref_char c) cur of
        Some c \<Rightarrow> Inl (Invalid_character c ref)
      | None \<Rightarrow> Inr (of_nat (foldl spec_row_step rw cur) - 1,
                     of_nat (foldl spec_col_step cl cur) - 1))"
proof (induction cur arbitrary: cl rw)
  case Nil
  show ?case by simp
next
  case (Cons c cur)
  let ?rhs = "\<lambda>cl rw cur. case find (\<lambda>c. \<not> ref_char c) cur of
        Some c \<Rightarrow> Inl (Invalid_character c ref)
      | None \<Rightarrow> Inr (of_nat (foldl spec_row_step rw cur) - 1 :: c_int,
                     of_nat (foldl spec_col_step cl cur) - 1 :: c_int)"
  show ?case
  proof (cases "is_digit c")
    case True
    define rw' where "rw' = rw * 10 + (of_char c - of_char (CHR ''0'') :: nat)"
    from True have le: "(48::nat) \<le> of_char c" by (simp add: is_digit_def)
    have w: "(of_nat rw :: c_int) * 10 + (of_char c - of_char (CHR ''0'')) = of_nat rw'"
      using le by (simp add: rw'_def of_nat_diff of_nat_of_char)
    have "parseRef_loop ref (c # cur) (of_nat cl) (of_nat rw) =
            parseRef_loop ref cur (of_nat cl) (of_nat rw')"
      using True by (simp only: parseRef_loop.simps if_True w)
    also have "\<dots> = ?rhs cl rw' cur" by (rule Cons.IH)
    also have "find (\<lambda>c. \<not> ref_char c) cur = find (\<lambda>c. \<not> ref_char c) (c # cur)"
      using True by (simp add: ref_char_def)
    also have "foldl spec_row_step rw' cur = foldl spec_row_step rw (c # cur)"
      using True by (simp add: spec_row_step_def rw'_def)
    also have "foldl spec_col_step cl cur = foldl spec_col_step cl (c # cur)"
      using True by (simp add: spec_col_step_def is_digit_not_upper)
    finally show ?thesis .
  next
    case False
    note nd = this
    show ?thesis
    proof (cases "is_upper c")
      case True
      define cl' where "cl' = cl * 26 + (of_char c - of_char (CHR ''A'') + 1 :: nat)"
      from True have le: "(65::nat) \<le> of_char c" by (simp add: is_upper_def)
      have w: "26 * (of_nat cl :: c_int) + (of_char c - of_char (CHR ''A'') + 1) = of_nat cl'"
        using le by (simp add: cl'_def of_nat_diff of_nat_of_char)
      have "parseRef_loop ref (c # cur) (of_nat cl) (of_nat rw) =
              parseRef_loop ref cur (of_nat cl') (of_nat rw)"
        using True nd by (simp only: parseRef_loop.simps if_True if_False w)
      also have "\<dots> = ?rhs cl' rw cur" by (rule Cons.IH)
      also have "find (\<lambda>c. \<not> ref_char c) cur = find (\<lambda>c. \<not> ref_char c) (c # cur)"
        using True by (simp add: ref_char_def)
      also have "foldl spec_col_step cl' cur = foldl spec_col_step cl (c # cur)"
        using True by (simp add: spec_col_step_def cl'_def)
      also have "foldl spec_row_step rw cur = foldl spec_row_step rw (c # cur)"
        using nd by (simp add: spec_row_step_def)
      finally show ?thesis .
    next
      case False
      with nd show ?thesis by (simp add: ref_char_def)
    qed
  qed
qed

lemma parseRef_eq:
  "parseRef ref =
     (case first_bad ref of
        Some c \<Rightarrow> Inl (Invalid_character c ref)
      | None \<Rightarrow> Inr (of_nat (spec_row ref) - 1, of_nat (spec_col ref) - 1))"
  unfolding parseRef_def first_bad_def spec_row_def spec_col_def
  using parseRef_loop_steps [of ref ref 0 0] by simp

lemma spec_row_no_digit: "list_all (\<lambda>c. \<not> is_digit c) cur \<Longrightarrow> foldl spec_row_step rw cur = rw"
  by (induction cur arbitrary: rw) (simp_all add: spec_row_step_def)

lemma char_cases:
  assumes "lo \<le> (of_char c :: nat)" "(of_char c :: nat) \<le> hi"
  shows "c \<in> char_of ` {lo..hi}"
proof -
  have "c = char_of (of_char c :: nat)" by simp
  with assms show ?thesis by (metis atLeastAtMost_iff imageI)
qed

lemma is_digit_iff: "is_digit c \<longleftrightarrow> c \<in> set ''0123456789''"
proof
  assume "is_digit c"
  then have "c \<in> char_of ` {48..57::nat}"
    unfolding is_digit_def by (intro char_cases) simp_all
  also have "{48..57::nat} = set [48..<Suc 57]" by (rule atLeastAtMost_upt)
  finally show "c \<in> set ''0123456789''"
    by (simp add: upt_rec char_of_def bit_Suc_0_iff)
next
  assume "c \<in> set ''0123456789''"
  then show "is_digit c" by (auto simp: is_digit_def)
qed

lemma is_upper_iff: "is_upper c \<longleftrightarrow> c \<in> set ''ABCDEFGHIJKLMNOPQRSTUVWXYZ''"
proof
  assume "is_upper c"
  then have "c \<in> char_of ` {65..90::nat}"
    unfolding is_upper_def by (intro char_cases) simp_all
  also have "{65..90::nat} = set [65..<Suc 90]" by (rule atLeastAtMost_upt)
  finally show "c \<in> set ''ABCDEFGHIJKLMNOPQRSTUVWXYZ''"
    by (simp add: upt_rec char_of_def bit_Suc_0_iff)
next
  assume "c \<in> set ''ABCDEFGHIJKLMNOPQRSTUVWXYZ''"
  then show "is_upper c" by (auto simp: is_upper_def)
qed

lemma ref_char_iff: "ref_char c \<longleftrightarrow> c \<in> set ''ABCDEFGHIJKLMNOPQRSTUVWXYZ0123456789''"
  unfolding ref_char_def is_digit_iff is_upper_iff by auto

lemma first_bad_None_iff: "first_bad ref = None \<longleftrightarrow> list_all ref_char ref"
  by (auto simp: first_bad_def find_None_iff list_all_iff)

text \<open>
  C3. \<open>parseRef\<close> scans left to right, takes every digit into the row as \<open>row * 10 + digit\<close>
  and every uppercase letter into the column as \<open>col * 26 + (letter - 'A' + 1)\<close>, so that
  \<open>A\<close> is 1, \<open>Z\<close> is 26 and \<open>AA\<close> is 27, and returns the pair \<open>(row - 1, col - 1)\<close>;
  \<open>A1\<close> gives \<open>(0, 0)\<close>, \<open>AA12\<close> gives \<open>(11, 26)\<close>, \<open>Z1\<close> gives \<open>(0, 25)\<close>, and a
  reference without digits that is parsed has row \<open>-1\<close>.
\<close>

theorem parseRef_accumulates:
  "(list_all ref_char ref \<longrightarrow>
      parseRef ref = Inr (of_nat (spec_row ref) - 1, of_nat (spec_col ref) - 1))
   \<and> spec_col ''A'' = 1 \<and> spec_col ''Z'' = 26 \<and> spec_col ''AA'' = 27
   \<and> parseRef ''A1'' = Inr (0, 0)
   \<and> parseRef ''AA12'' = Inr (11, 26)
   \<and> parseRef ''Z1'' = Inr (0, 25)
   \<and> (list_all (\<lambda>c. \<not> is_digit c) ref \<and> parseRef ref = Inr (rw, cl) \<longrightarrow>
        rw = - 1 \<and> sint rw = - 1)"
proof -
  have general: "list_all ref_char ref \<longrightarrow>
      parseRef ref = Inr (of_nat (spec_row ref) - 1, of_nat (spec_col ref) - 1)"
    using parseRef_eq [of ref] by (simp add: first_bad_None_iff [symmetric])
  have letters: "spec_col ''A'' = 1 \<and> spec_col ''Z'' = 26 \<and> spec_col ''AA'' = 27"
    by (simp add: spec_col_def spec_col_step_def is_upper_def)
  have a1: "parseRef ''A1'' = Inr (0, 0)"
    by (simp add: parseRef_def is_digit_def is_upper_def)
  have aa12: "parseRef ''AA12'' = Inr (11, 26)"
    by (simp add: parseRef_def is_digit_def is_upper_def)
  have z1: "parseRef ''Z1'' = Inr (0, 25)"
    by (simp add: parseRef_def is_digit_def is_upper_def)
  have nodigit: "list_all (\<lambda>c. \<not> is_digit c) ref \<and> parseRef ref = Inr (rw, cl) \<longrightarrow>
        rw = - 1 \<and> sint rw = - 1"
  proof
    assume h: "list_all (\<lambda>c. \<not> is_digit c) ref \<and> parseRef ref = Inr (rw, cl)"
    then have "spec_row ref = 0"
      by (simp add: spec_row_def spec_row_no_digit)
    with h parseRef_eq [of ref] have "rw = - 1"
      by (cases "first_bad ref") simp_all
    then show "rw = - 1 \<and> sint rw = - 1" by simp
  qed
  from letters have l1: "spec_col ''A'' = 1" and l2: "spec_col ''Z'' = 26"
    and l3: "spec_col ''AA'' = 27" by simp_all
  show ?thesis
    by (intro conjI) (fact general l1 l2 l3 a1 aa12 z1 nodigit)+
qed

theorem parseRef_accumulates_witness:
  "list_all ref_char ''AA12''
   \<and> parseRef ''AA12'' = Inr (of_nat (spec_row ''AA12'') - 1, of_nat (spec_col ''AA12'') - 1)
   \<and> spec_row ''AA12'' = 12 \<and> spec_col ''AA12'' = 27
   \<and> list_all (\<lambda>c. \<not> is_digit c) ''B''
   \<and> parseRef ''B'' = Inr (- 1, 1)
   \<and> sint (- 1 :: c_int) = - 1"
proof -
  have v: "list_all ref_char ''AA12''"
    by (simp add: ref_char_def is_digit_def is_upper_def)
  have r: "spec_row ''AA12'' = 12"
    by (simp add: spec_row_def spec_row_step_def is_digit_def)
  have c: "spec_col ''AA12'' = 27"
    by (simp add: spec_col_def spec_col_step_def is_upper_def)
  have b1: "list_all (\<lambda>c. \<not> is_digit c) ''B''"
    by (simp add: is_digit_def)
  have b2: "parseRef ''B'' = Inr (- 1, 1)"
    by (simp add: parseRef_def is_digit_def is_upper_def)
  have p: "parseRef ''AA12'' =
      Inr (of_nat (spec_row ''AA12'') - 1, of_nat (spec_col ''AA12'') - 1)"
    by (rule mp [OF conjunct1 [OF parseRef_accumulates [of "''AA12''"]] v])
  have s: "sint (- 1 :: c_int) = - 1"
    by simp
  show ?thesis
    by (intro conjI) (fact v p r c b1 b2 s)+
qed

text \<open>
  C4. \<open>parseRef\<close> accepts uppercase letters and digits in any interleaving (\<open>1A\<close> is
  parsed) and fails, with an error that carries the offending character and the whole
  reference, exactly when the input has a character outside \<open>[A-Z0-9]\<close>; \<open>A#1\<close> fails
  with the character \<open>#\<close>.
\<close>

theorem parseRef_fails_iff_bad_char:
  "(ref_char ch \<longleftrightarrow> ch \<in> set ''ABCDEFGHIJKLMNOPQRSTUVWXYZ0123456789'')
   \<and> ((\<exists>e. parseRef ref = Inl e) \<longleftrightarrow> list_ex (\<lambda>c. \<not> ref_char c) ref)
   \<and> ((\<exists>p. parseRef ref = Inr p) \<longleftrightarrow> list_all ref_char ref)
   \<and> (\<forall>e. parseRef ref = Inl e \<longrightarrow>
         (\<exists>c. first_bad ref = Some c \<and> \<not> ref_char c \<and> c \<in> set ref
            \<and> e = Invalid_character c ref))
   \<and> parseRef ''1A'' = Inr (0, 0)
   \<and> parseRef ''A#1'' = Inl (Invalid_character (CHR ''#'') ''A#1'')"
proof -
  have ex: "list_ex (\<lambda>c. \<not> ref_char c) ref \<longleftrightarrow> first_bad ref \<noteq> None"
    by (simp add: first_bad_None_iff list_ex_iff list_all_iff)
  have p1: "(\<exists>e. parseRef ref = Inl e) \<longleftrightarrow> list_ex (\<lambda>c. \<not> ref_char c) ref"
    unfolding ex using parseRef_eq [of ref] by (cases "first_bad ref") simp_all
  have p2: "(\<exists>p. parseRef ref = Inr p) \<longleftrightarrow> list_all ref_char ref"
    unfolding first_bad_None_iff [symmetric]
    using parseRef_eq [of ref] by (cases "first_bad ref") simp_all
  have p3: "\<forall>e. parseRef ref = Inl e \<longrightarrow>
         (\<exists>c. first_bad ref = Some c \<and> \<not> ref_char c \<and> c \<in> set ref
            \<and> e = Invalid_character c ref)"
  proof (intro allI impI)
    fix e assume h: "parseRef ref = Inl e"
    with parseRef_eq [of ref] obtain c where c: "first_bad ref = Some c"
      and e: "e = Invalid_character c ref"
      by (cases "first_bad ref") auto
    from c have "\<not> ref_char c \<and> c \<in> set ref"
      by (auto simp: first_bad_def find_Some_iff)
    with c e show "\<exists>c. first_bad ref = Some c \<and> \<not> ref_char c \<and> c \<in> set ref
            \<and> e = Invalid_character c ref" by blast
  qed
  have p4: "parseRef ''1A'' = Inr (0, 0)"
    by (simp add: parseRef_def is_digit_def is_upper_def)
  have p5: "parseRef ''A#1'' = Inl (Invalid_character (CHR ''#'') ''A#1'')"
    by (simp add: parseRef_def is_digit_def is_upper_def)
  note p0 = ref_char_iff [of ch]
  show ?thesis
    by (intro conjI) (fact p0 p1 p2 p3 p4 p5)+
qed

theorem parseRef_fails_iff_bad_char_witness:
  "parseRef ''A#1'' = Inl (Invalid_character (CHR ''#'') ''A#1'')
   \<and> list_ex (\<lambda>c. \<not> ref_char c) ''A#1''
   \<and> first_bad ''A#1'' = Some (CHR ''#'')
   \<and> parseRef ''1A'' = Inr (0, 0)
   \<and> list_all ref_char ''1A''"
proof -
  note t = parseRef_fails_iff_bad_char [of "CHR ''#''" "''A#1''"]
  have f: "parseRef ''A#1'' = Inl (Invalid_character (CHR ''#'') ''A#1'')"
    using t by (elim conjE)
  then have "\<exists>e. parseRef ''A#1'' = Inl e" ..
  with t have x: "list_ex (\<lambda>c. \<not> ref_char c) ''A#1''"
    by (elim conjE) (rule iffD1)
  have a: "list_all ref_char ''1A''"
    by (simp add: ref_char_def is_digit_def is_upper_def)
  have b: "first_bad ''A#1'' = Some (CHR ''#'')"
    by (simp add: first_bad_def ref_char_def is_digit_def is_upper_def)
  have o: "parseRef ''1A'' = Inr (0, 0)"
    using t by (elim conjE)
  show ?thesis
    by (intro conjI) (fact f x b o a)+
qed

section \<open>Coordinates and the round trip\<close>

lemma sint_pred: 
  assumes "n < 2 ^ 31" shows "sint (of_nat n - 1 :: c_int) = int n - 1"
proof -
  have "(of_nat n - 1 :: c_int) = word_of_int (int n - 1)" by simp
  then have "sint (of_nat n - 1 :: c_int) = (int n - 1 + 2 ^ 31) mod 2 ^ 32 - 2 ^ 31"
    by (simp only: int_word_sint) simp
  also have "\<dots> = int n - 1" using assms by (simp add: mod_pos_pos_trivial)
  finally show ?thesis .
qed

lemma is_upper_not_digit: "is_upper c \<Longrightarrow> \<not> is_digit c"
  by (simp add: is_digit_def is_upper_def)

lemma spec_col_step_digits: "list_all is_digit ds \<Longrightarrow> foldl spec_col_step k ds = k"
  by (induction ds arbitrary: k) (simp_all add: spec_col_step_def is_digit_not_upper)

lemma spec_row_step_letters: "list_all is_upper ls \<Longrightarrow> foldl spec_row_step k ls = k"
  by (induction ls arbitrary: k) (simp_all add: spec_row_step_def is_upper_not_digit)

lemma col_letters_step:
  assumes "is_upper x"
  shows "col_letters (k * 26 + (of_char x - of_char (CHR ''A'') + 1)) = col_letters k @ [x]"
proof -
  from assms have r: "(65::nat) \<le> of_char x" "(of_char x :: nat) \<le> 90"
    by (simp_all add: is_upper_def)
  define d where "d = (of_char x :: nat) - 65"
  from r have d: "d < 26" "(of_char x :: nat) = 65 + d" by (simp_all add: d_def)
  have "col_letters (k * 26 + (d + 1)) = col_letters ((k * 26 + d) div 26) @ [char_of (65 + (k * 26 + d) mod 26)]"
    by (subst col_letters.simps) simp
  also have "(k * 26 + d) div 26 = k" using d by simp
  also have "(k * 26 + d) mod 26 = d" using d by simp
  also have "char_of (65 + d) = x" using d(2) [symmetric] by (simp del: of_char_eq_iff)
  finally show ?thesis by (simp add: d_def)
qed

lemma col_letters_foldl:
  "list_all is_upper ls \<Longrightarrow> col_letters (foldl spec_col_step 0 ls) = ls"
proof (induction ls rule: rev_induct)
  case Nil
  show ?case by (simp add: col_letters.simps)
next
  case (snoc x ls)
  from snoc.prems have x: "is_upper x" and all: "list_all is_upper ls" by simp_all
  have "foldl spec_col_step 0 (ls @ [x]) =
          foldl spec_col_step 0 ls * 26 + (of_char x - of_char (CHR ''A'') + 1)"
    using x by (simp add: spec_col_step_def)
  then show ?case
    by (simp only: col_letters_step [OF x] snoc.IH [OF all])
qed

lemma spec_row_step_pos:
  "list_all is_digit ds \<Longrightarrow> 0 < k \<Longrightarrow> 0 < foldl spec_row_step k ds"
  by (induction ds arbitrary: k) (simp_all add: spec_row_step_def)

lemma spec_row_pos:
  assumes "list_all is_digit ds" "ds \<noteq> []" "hd ds \<noteq> CHR ''0''"
  shows "0 < foldl spec_row_step 0 ds"
proof -
  from assms obtain x ds' where ds: "ds = x # ds'" by (cases ds) auto
  with assms have x: "is_digit x" "x \<noteq> CHR ''0''" and r: "list_all is_digit ds'" by simp_all
  from x(2) have "(of_char x :: nat) \<noteq> of_char (CHR ''0'')"
    by (simp only: of_char_eq_iff) simp
  with x(1) have "0 < spec_row_step 0 x"
    by (simp add: spec_row_step_def is_digit_def)
  with r show ?thesis unfolding ds by (simp add: spec_row_step_pos)
qed

lemma digit_char:
  assumes "is_digit x"
  shows "char_of (of_char (CHR ''0'') + (of_char x - of_char (CHR ''0'') :: nat)) = x"
proof -
  from assms have "(48::nat) \<le> of_char x" by (simp add: is_digit_def)
  then have "of_char (CHR ''0'') + (of_char x - of_char (CHR ''0'') :: nat) = of_char x" by simp
  then show ?thesis by (simp only: char_of_char)
qed

lemma row_digits_foldl:
  "list_all is_digit ds \<Longrightarrow> ds \<noteq> [] \<Longrightarrow> hd ds \<noteq> CHR ''0'' \<Longrightarrow>
     row_digits (foldl spec_row_step 0 ds) = ds"
proof (induction ds rule: rev_induct)
  case Nil
  then show ?case by simp
next
  case (snoc x ds)
  from snoc.prems have x: "is_digit x" and all: "list_all is_digit ds" by simp_all
  define d where "d = (of_char x :: nat) - of_char (CHR ''0'')"
  from x have d: "d < 10" unfolding d_def is_digit_def by auto
  have c: "char_of (of_char (CHR ''0'') + d) = x"
    unfolding d_def by (rule digit_char [OF x])
  show ?case
  proof (cases "ds = []")
    case True
    have "row_digits d = [char_of (of_char (CHR ''0'') + d)]"
      using d by (subst row_digits.simps) simp
    then have e: "row_digits d = [x]" by (simp only: c)
    have "spec_row_step 0 x = d"
      using x by (simp add: spec_row_step_def d_def)
    moreover have "foldl spec_row_step 0 (ds @ [x]) = spec_row_step 0 x"
      using True by simp
    ultimately show ?thesis using e True by (simp only: append_Nil)
  next
    case False
    with snoc.prems have hd: "hd ds \<noteq> CHR ''0''" by simp
    define v where "v = foldl spec_row_step 0 ds"
    from all False hd have pos: "0 < v" unfolding v_def by (rule spec_row_pos)
    from snoc.IH [OF all False hd] have ih: "row_digits v = ds" by (simp add: v_def)
    have "row_digits (v * 10 + d) =
            row_digits ((v * 10 + d) div 10) @ [char_of (of_char (CHR ''0'') + (v * 10 + d) mod 10)]"
      using pos by (subst row_digits.simps) simp
    also have "(v * 10 + d) div 10 = v" using d by simp
    also have "(v * 10 + d) mod 10 = d" using d by simp
    finally have e: "row_digits (v * 10 + d) = ds @ [x]" by (simp only: ih c)
    have "spec_row_step v x = v * 10 + d"
      using x by (simp add: spec_row_step_def d_def)
    moreover have "foldl spec_row_step 0 (ds @ [x]) = spec_row_step v x"
      by (simp add: v_def)
    ultimately show ?thesis using e by (simp only:)
  qed
qed

lemma spec_row_letters_digits:
  "list_all is_upper ls \<Longrightarrow> spec_row (ls @ ds) = foldl spec_row_step 0 ds"
  by (simp add: spec_row_def spec_row_step_letters)

lemma spec_col_letters_digits:
  "list_all is_digit ds \<Longrightarrow> spec_col (ls @ ds) = foldl spec_col_step 0 ls"
  by (simp add: spec_col_def spec_col_step_digits)

lemma list_all_ref_char_letters_digits:
  "list_all is_upper ls \<Longrightarrow> list_all is_digit ds \<Longrightarrow> list_all ref_char (ls @ ds)"
  by (auto simp: list_all_iff ref_char_def)

lemma parseRef_coordinates:
  assumes "list_all ref_char ref" "spec_row ref < 2 ^ 31" "spec_col ref < 2 ^ 31"
  shows "\<exists>p. parseRef ref = Inr p \<and>
           coordinates p = (int (spec_row ref) - 1, int (spec_col ref) - 1)"
proof -
  from assms(1) have "first_bad ref = None" by (simp add: first_bad_None_iff)
  with parseRef_eq [of ref]
  have "parseRef ref = Inr (of_nat (spec_row ref) - 1, of_nat (spec_col ref) - 1)" by simp
  moreover have "coordinates (of_nat (spec_row ref) - 1, of_nat (spec_col ref) - 1) =
      (int (spec_row ref) - 1, int (spec_col ref) - 1)"
    using assms(2,3) by (simp add: coordinates_def sint_pred)
  ultimately show ?thesis by blast
qed

text \<open>
  C5, as the code has it. The parser rejects exactly the references with a character
  outside \<open>[A-Z0-9]\<close>; every other reference is accepted, also one whose one-indexed row or
  column is 0. When the one-indexed row and column are below \<open>2^31\<close>, the coordinate is
  \<open>(row - 1, col - 1)\<close>: a component is non-negative exactly when its one-indexed number
  is positive, and it is \<open>-1\<close> when that number is 0.
\<close>

theorem parseRef_component_signs:
  assumes "spec_row ref < 2 ^ 31" and "spec_col ref < 2 ^ 31"
  shows "((\<exists>e. parseRef ref = Inl e) \<longleftrightarrow> \<not> list_all ref_char ref)
    \<and> (list_all ref_char ref \<longrightarrow>
         (\<exists>p. parseRef ref = Inr p
            \<and> coordinates p = (int (spec_row ref) - 1, int (spec_col ref) - 1)
            \<and> (0 \<le> fst (coordinates p) \<longleftrightarrow> 0 < spec_row ref)
            \<and> (0 \<le> snd (coordinates p) \<longleftrightarrow> 0 < spec_col ref)
            \<and> (spec_row ref = 0 \<longrightarrow> fst (coordinates p) = - 1)
            \<and> (spec_col ref = 0 \<longrightarrow> snd (coordinates p) = - 1)))"
proof (intro conjI impI)
  show "(\<exists>e. parseRef ref = Inl e) \<longleftrightarrow> \<not> list_all ref_char ref"
    unfolding first_bad_None_iff [symmetric]
    using parseRef_eq [of ref] by (cases "first_bad ref") simp_all
next
  assume "list_all ref_char ref"
  from parseRef_coordinates [OF this assms] obtain p where p: "parseRef ref = Inr p"
    and c: "coordinates p = (int (spec_row ref) - 1, int (spec_col ref) - 1)" by blast
  from c have f: "fst (coordinates p) = int (spec_row ref) - 1"
    and g: "snd (coordinates p) = int (spec_col ref) - 1" by simp_all
  have s1: "0 \<le> fst (coordinates p) \<longleftrightarrow> 0 < spec_row ref"
    unfolding f by linarith
  have s2: "0 \<le> snd (coordinates p) \<longleftrightarrow> 0 < spec_col ref"
    unfolding g by linarith
  have s3: "spec_row ref = 0 \<longrightarrow> fst (coordinates p) = - 1"
    unfolding f by simp
  have s4: "spec_col ref = 0 \<longrightarrow> snd (coordinates p) = - 1"
    unfolding g by simp
  from p c s1 s2 s3 s4
  show "\<exists>p. parseRef ref = Inr p
            \<and> coordinates p = (int (spec_row ref) - 1, int (spec_col ref) - 1)
            \<and> (0 \<le> fst (coordinates p) \<longleftrightarrow> 0 < spec_row ref)
            \<and> (0 \<le> snd (coordinates p) \<longleftrightarrow> 0 < spec_col ref)
            \<and> (spec_row ref = 0 \<longrightarrow> fst (coordinates p) = - 1)
            \<and> (spec_col ref = 0 \<longrightarrow> snd (coordinates p) = - 1)"
    by (intro exI [of _ p] conjI)
qed

theorem parseRef_component_signs_witness:
  "spec_row ''B0'' = 0 \<and> spec_col ''B0'' = 2 \<and> list_all ref_char ''B0''
   \<and> (\<exists>p. parseRef ''B0'' = Inr p \<and> coordinates p = (- 1, 1))"
proof -
  have r: "spec_row ''B0'' = 0"
    by (simp add: spec_row_def spec_row_step_def is_digit_def)
  have k: "spec_col ''B0'' = 2"
    by (simp add: spec_col_def spec_col_step_def is_upper_def)
  have v: "list_all ref_char ''B0''"
    by (simp add: ref_char_def is_digit_def is_upper_def)
  have h1: "spec_row ''B0'' < 2 ^ 31" and h2: "spec_col ''B0'' < 2 ^ 31"
    by (simp_all add: r k)
  have "list_all ref_char ''B0'' \<longrightarrow>
         (\<exists>p. parseRef ''B0'' = Inr p
            \<and> coordinates p = (int (spec_row ''B0'') - 1, int (spec_col ''B0'') - 1)
            \<and> (0 \<le> fst (coordinates p) \<longleftrightarrow> 0 < spec_row ''B0'')
            \<and> (0 \<le> snd (coordinates p) \<longleftrightarrow> 0 < spec_col ''B0'')
            \<and> (spec_row ''B0'' = 0 \<longrightarrow> fst (coordinates p) = - 1)
            \<and> (spec_col ''B0'' = 0 \<longrightarrow> snd (coordinates p) = - 1))"
    by (rule conjunct2 [OF parseRef_component_signs [OF h1 h2]])
  from mp [OF this v] obtain p where p: "parseRef ''B0'' = Inr p"
    and "coordinates p = (int (spec_row ''B0'') - 1, int (spec_col ''B0'') - 1)" by blast
  then have "coordinates p = (- 1, 1)" by (simp only: r k) simp
  with p have e: "\<exists>p. parseRef ''B0'' = Inr p \<and> coordinates p = (- 1, 1)" by blast
  show ?thesis by (intro conjI) (fact r k v e)+
qed

text \<open>
  The claim as the specification words it fails: \<open>A0\<close>, whose one-indexed row is 0, and
  \<open>7\<close>, whose one-indexed column is 0, are parsed, and the component is \<open>-1\<close>.
\<close>

theorem parseRef_negative_component_counterexample:
  "parseRef ''A0'' = Inr (- 1, 0) \<and> fst (coordinates (- 1, 0)) < 0
   \<and> parseRef ''7'' = Inr (6, - 1) \<and> snd (coordinates (6, - 1)) < 0"
  by (simp add: parseRef_def is_digit_def is_upper_def coordinates_def)

text \<open>
  Beyond the bound the accumulated number no longer fits: with wrap-around the row
  \<open>4294967297\<close> is read as row 1.
\<close>

lemma parseRef_wraps_beyond_int:
  "parseRef ''A4294967297'' = Inr (0, 0) \<and> spec_row ''A4294967297'' = 4294967297"
  by (simp add: parseRef_def is_digit_def is_upper_def spec_row_def spec_row_step_def)

text \<open>
  C9, as the code has it. For a reference made of one or more uppercase letters and then
  a row number without a leading zero, both numbers below \<open>2^31\<close>, building a reference
  from the parsed coordinates gives the reference back.
\<close>

theorem build_parseRef_roundtrip:
  assumes "ref = letters @ digits"
    and "letters \<noteq> []" and "list_all is_upper letters"
    and "digits \<noteq> []" and "list_all is_digit digits" and "hd digits \<noteq> CHR ''0''"
    and "spec_row ref < 2 ^ 31" and "spec_col ref < 2 ^ 31"
  shows "\<exists>p. parseRef ref = Inr p \<and> build (coordinates p) = ref"
proof -
  have "list_all ref_char ref"
    unfolding assms(1) using assms(3,5) by (rule list_all_ref_char_letters_digits)
  from parseRef_coordinates [OF this assms(7,8)] obtain p where p: "parseRef ref = Inr p"
    and c: "coordinates p = (int (spec_row ref) - 1, int (spec_col ref) - 1)" by blast
  have r: "spec_row ref = foldl spec_row_step 0 digits"
    unfolding assms(1) using assms(3) by (rule spec_row_letters_digits)
  have k: "spec_col ref = foldl spec_col_step 0 letters"
    unfolding assms(1) using assms(5) by (rule spec_col_letters_digits)
  have "build (coordinates p) = col_letters (spec_col ref) @ row_digits (spec_row ref)"
    by (simp add: c build_def)
  also have "\<dots> = letters @ digits"
    unfolding r k using assms by (simp add: col_letters_foldl row_digits_foldl)
  finally show ?thesis using p assms(1) by blast
qed

theorem build_parseRef_roundtrip_witness:
  "\<exists>p. parseRef ''AA12'' = Inr p \<and> build (coordinates p) = ''AA12''"
proof (rule build_parseRef_roundtrip [of _ "''AA''" "''12''"])
  show "''AA12'' = ''AA'' @ ''12''" by simp
  show "''AA'' \<noteq> []" by simp
  show "list_all is_upper ''AA''" by (simp add: is_upper_def)
  show "''12'' \<noteq> []" by simp
  show "list_all is_digit ''12''" by (simp add: is_digit_def)
  show "hd ''12'' \<noteq> CHR ''0''" by simp
  show "spec_row ''AA12'' < 2 ^ 31" by (simp add: spec_row_def spec_row_step_def is_digit_def)
  show "spec_col ''AA12'' < 2 ^ 31" by (simp add: spec_col_def spec_col_step_def is_upper_def)
qed

text \<open>
  With a leading zero in the row number the round trip fails, whatever \<open>build\<close> is:
  \<open>A01\<close> and \<open>A1\<close> have the same coordinates.
\<close>

theorem build_parseRef_leading_zero_counterexample:
  "parseRef ''A01'' = Inr (0, 0) \<and> build (coordinates (0, 0)) = ''A1'' \<and> ''A1'' \<noteq> ''A01''
   \<and> parseRef ''A1'' = parseRef ''A01''"
  by code_simp

section \<open>Properties of \<open>parseString\<close>\<close>

lemma parseString_runs_eq:
  "parseString_runs rs (found, out) =
     (found \<or> List.map_filter (\<lambda>r. map_option node_value (first_node ''t'' r)) rs \<noteq> [],
      out @ concat (List.map_filter (\<lambda>r. map_option node_value (first_node ''t'' r)) rs))"
proof (induction rs arbitrary: found out)
  case Nil
  show ?case by (simp add: List.map_filter_simps)
next
  case (Cons r rs)
  show ?case
    by (cases "first_node ''t'' r") (simp_all add: Cons.IH List.map_filter_simps)
qed

lemma parseString_eq:
  "parseString string =
     (plain_text string \<noteq> None \<or> run_texts string \<noteq> [],
      (case plain_text string of None \<Rightarrow> [] | Some s \<Rightarrow> s) @ concat (run_texts string))"
  by (cases "first_node ''t'' string")
     (simp_all add: parseString_def parseString_runs_eq plain_text_def run_texts_def)

text \<open>
  C6. \<open>parseString\<close> finds a text exactly when the node has a \<^verbatim>\<open><t>\<close> child or a run
  with a \<^verbatim>\<open><t>\<close> child, and the text is then the content of the first \<^verbatim>\<open><t>\<close> child, if
  there is one, followed by the contents of the \<^verbatim>\<open><t>\<close> children of the runs in sibling
  order, runs without one being skipped. Not found is not the empty text: a lone
  \<^verbatim>\<open><t></t>\<close> is found and empty, a lone \<^verbatim>\<open><r></r>\<close> is not found.
\<close>

theorem parseString_resolves:
  "fst (parseString string) = (resolveText string \<noteq> None)
   \<and> (fst (parseString string) \<longrightarrow> resolveText string = Some (snd (parseString string)))
   \<and> (\<not> fst (parseString string) \<longrightarrow> snd (parseString string) = [])
   \<and> (fst (parseString string) \<longleftrightarrow> plain_text string \<noteq> None \<or> run_texts string \<noteq> [])
   \<and> snd (parseString string) =
        (case plain_text string of None \<Rightarrow> [] | Some s \<Rightarrow> s) @ concat (run_texts string)
   \<and> parseString (Xml_node ''si'' [] [] [Xml_node ''t'' ''hello'' [] []]) = (True, ''hello'')
   \<and> parseString (Xml_node ''si'' [] [] [Xml_node ''t'' ''hello'' [] [],
          Xml_node ''r'' [] [] [Xml_node ''t'' '' world'' [] []]]) = (True, ''hello world'')
   \<and> parseString (Xml_node ''si'' [] [] [Xml_node ''r'' [] [] []]) = (False, [])
   \<and> parseString (Xml_node ''si'' [] [] [Xml_node ''t'' [] [] []]) = (True, [])"
proof -
  note e = parseString_eq [of string]
  have a: "fst (parseString string) = (resolveText string \<noteq> None)"
    by (simp add: e resolveText_def)
  have b: "fst (parseString string) \<longrightarrow> resolveText string = Some (snd (parseString string))"
    by (simp add: e resolveText_def)
  have c: "\<not> fst (parseString string) \<longrightarrow> snd (parseString string) = []"
    by (simp add: e)
  have d: "fst (parseString string) \<longleftrightarrow> plain_text string \<noteq> None \<or> run_texts string \<noteq> []"
    by (simp add: e)
  have f: "snd (parseString string) =
        (case plain_text string of None \<Rightarrow> [] | Some s \<Rightarrow> s) @ concat (run_texts string)"
    by (simp add: e)
  have x1: "parseString (Xml_node ''si'' [] [] [Xml_node ''t'' ''hello'' [] []]) = (True, ''hello'')"
    by (simp add: parseString_def first_node_def nodes_named_def)
  have x2: "parseString (Xml_node ''si'' [] [] [Xml_node ''t'' ''hello'' [] [],
          Xml_node ''r'' [] [] [Xml_node ''t'' '' world'' [] []]]) = (True, ''hello world'')"
    by (simp add: parseString_def first_node_def nodes_named_def)
  have x3: "parseString (Xml_node ''si'' [] [] [Xml_node ''r'' [] [] []]) = (False, [])"
    by (simp add: parseString_def first_node_def nodes_named_def)
  have x4: "parseString (Xml_node ''si'' [] [] [Xml_node ''t'' [] [] []]) = (True, [])"
    by (simp add: parseString_def first_node_def nodes_named_def)
  show ?thesis
    by (intro conjI) (fact a b c d f x1 x2 x3 x4)+
qed

theorem parseString_resolves_witness:
  "fst (parseString (Xml_node ''si'' [] [] [Xml_node ''r'' [] [] [Xml_node ''t'' ''a'' [] []],
      Xml_node ''t'' ''b'' [] [], Xml_node ''r'' [] [] [], Xml_node ''r'' [] [] [Xml_node ''t'' ''c'' [] []]]))
   \<and> resolveText (Xml_node ''si'' [] [] [Xml_node ''r'' [] [] [Xml_node ''t'' ''a'' [] []],
      Xml_node ''t'' ''b'' [] [], Xml_node ''r'' [] [] [], Xml_node ''r'' [] [] [Xml_node ''t'' ''c'' [] []]])
      = Some ''bac''
   \<and> \<not> fst (parseString (Xml_node ''si'' [] [] [Xml_node ''r'' [] [] []]))
   \<and> snd (parseString (Xml_node ''si'' [] [] [Xml_node ''r'' [] [] []])) = []"
proof -
  let ?n = "Xml_node ''si'' [] [] [Xml_node ''r'' [] [] [Xml_node ''t'' ''a'' [] []],
      Xml_node ''t'' ''b'' [] [], Xml_node ''r'' [] [] [], Xml_node ''r'' [] [] [Xml_node ''t'' ''c'' [] []]]"
  let ?r = "Xml_node ''si'' [] [] [Xml_node ''r'' [] [] []]"
  have v: "parseString ?n = (True, ''bac'')"
    by (simp add: parseString_def first_node_def nodes_named_def)
  then have f: "fst (parseString ?n)" by simp
  have "fst (parseString ?n) \<longrightarrow> resolveText ?n = Some (snd (parseString ?n))"
    using parseString_resolves [of ?n] by (elim conjE)
  with f have "resolveText ?n = Some (snd (parseString ?n))" by (rule rev_mp)
  then have r: "resolveText ?n = Some ''bac''" by (simp only: v snd_conv)
  have "parseString ?r = (False, [])"
    by (simp add: parseString_def first_node_def nodes_named_def)
  then have g: "\<not> fst (parseString ?r)" by simp
  have "\<not> fst (parseString ?r) \<longrightarrow> snd (parseString ?r) = []"
    using parseString_resolves [of ?r] by (elim conjE)
  with g have h: "snd (parseString ?r) = []" by (rule rev_mp)
  show ?thesis
    by (intro conjI) (fact f r g h)+
qed

section \<open>Properties of the classification\<close>

lemma of_char_zero_iff: "int (of_char b) = 0 \<longleftrightarrow> b = CHR 0x00"
proof -
  have "(of_char b :: nat) = of_char (CHR 0x00) \<longleftrightarrow> b = CHR 0x00"
    by (rule of_char_eq_iff)
  then show ?thesis by simp
qed

lemma of_char_pos_iff: "0 < (of_char b :: nat) \<longleftrightarrow> b \<noteq> CHR 0x00"
  using of_char_zero_iff [of b] by auto

lemma of_char_diff_zero_iff: "int (of_char a) - int (of_char b) = 0 \<longleftrightarrow> a = b"
proof -
  have "(of_char a :: nat) = of_char b \<longleftrightarrow> a = b"
    by (rule of_char_eq_iff)
  then show ?thesis by auto
qed

lemma strncmp_exact:
  "CHR 0x00 \<notin> set s \<Longrightarrow> CHR 0x00 \<notin> set l \<Longrightarrow> length l < n \<Longrightarrow>
     strncmp s l n = 0 \<longleftrightarrow> s = l"
proof (induction s l n rule: strncmp.induct)
  case (1 s1 s2)
  then show ?case by simp
next
  case (2 n)
  show ?case by simp
next
  case (3 b s2 n)
  then show ?case by (auto simp: of_char_pos_iff)
next
  case (4 a s1 n)
  then show ?case by (auto simp: of_char_pos_iff)
next
  case (5 a s1 b s2 n)
  then show ?case by (auto simp: of_char_diff_zero_iff)
qed

lemma strncmp_prefix:
  "CHR 0x00 \<notin> set l \<Longrightarrow> strncmp s l (length l) = 0 \<longleftrightarrow> take (length l) s = l"
proof (induction l arbitrary: s)
  case Nil
  show ?case by simp
next
  case (Cons b l)
  then show ?case
    by (cases s) (auto simp: of_char_pos_iff of_char_diff_zero_iff)
qed

lemma strncmp_prefix_n:
  "CHR 0x00 \<notin> set l \<Longrightarrow> n = length l \<Longrightarrow> strncmp s l n = 0 \<longleftrightarrow> take n s = l"
  using strncmp_prefix [of l s] by simp

lemma strncmp_5:
  assumes "CHR 0x00 \<notin> set tv" "CHR 0x00 \<notin> set l" "length l < 5"
  shows "strncmp tv l 5 = 0 \<longleftrightarrow> tv = l"
  using assms by (rule strncmp_exact)

lemma strncmp_inlineStr: "strncmp tv ''inlineStr'' 9 = 0 \<longleftrightarrow> take 9 tv = ''inlineStr''"
proof -
  have "CHR 0x00 \<notin> set ''inlineStr''" by simp
  moreover have "9 = length ''inlineStr''" by simp
  ultimately show ?thesis by (rule strncmp_prefix_n)
qed

text \<open>
  \<open>atoi\<close> on small and on large numbers: beyond the range of \<^verbatim>\<open>int\<close> the low 32 bits
  of the saturated \<^verbatim>\<open>long\<close> remain.
\<close>

lemma atoi_examples:
  "atoi ''5'' = 5 \<and> atoi ''  -42abc'' = - 42 \<and> atoi ''abc'' = 0
   \<and> atoi ''4294967296'' = 0 \<and> atoi ''4294967299'' = 3
   \<and> atoi ''99999999999999999999'' = - 1 \<and> atoi ''-99999999999999999999'' = 0
   \<and> sint (atoi ''2147483648'') = - 2147483648"
  by (simp add: atoi_def strtol_def atoi_digits_def isspace_def is_digit_def)

lemma type_absent:
  "first_attribute ''t'' (cell c) = None \<Longrightarrow>
     type na stringTable dateStyles c = Inr ([], numeric_tag dateStyles c)"
  by (cases "first_attribute ''s'' (cell c)") (simp_all add: type_def numeric_tag_def)

lemma type_present:
  assumes t: "first_attribute ''t'' (cell c) = Some tv" and nul: "CHR 0x00 \<notin> set tv"
  shows "type na stringTable dateStyles c =
     (if tv = ''n'' then Inr ([], numeric_tag dateStyles c)
      else if tv = ''b'' then Inr ([], CELL_NUMERIC)
      else if tv = ''d'' then Inr ([], CELL_TEXT)
      else if tv = ''e'' then Inr ([], CELL_BLANK)
      else if tv = ''s'' then
        (case first_node ''v'' (cell c) of
           None \<Rightarrow> Inr ([], CELL_BLANK)
         | Some v \<Rightarrow>
             (case vector_at stringTable (sint (atoi (node_value v))) of
                Inl e \<Rightarrow> Inl e
              | Inr string \<Rightarrow> Inr ([], if string = na then CELL_BLANK else CELL_TEXT)))
      else if tv = ''str'' then
        (case first_node ''v'' (cell c) of
           None \<Rightarrow> Inr ([], CELL_BLANK)
         | Some v \<Rightarrow> Inr ([], if na = node_value v then CELL_BLANK else CELL_TEXT))
      else if take 9 tv = ''inlineStr'' then Inr ([], CELL_TEXT)
      else Inr ([Unknown_type (row c + 1) (col c + 1) tv], CELL_TEXT))"
proof -
  have n: "strncmp tv ''n'' 5 = 0 \<longleftrightarrow> tv = ''n''" using nul by (intro strncmp_5) simp_all
  have b: "strncmp tv ''b'' 5 = 0 \<longleftrightarrow> tv = ''b''" using nul by (intro strncmp_5) simp_all
  have d: "strncmp tv ''d'' 5 = 0 \<longleftrightarrow> tv = ''d''" using nul by (intro strncmp_5) simp_all
  have e: "strncmp tv ''e'' 5 = 0 \<longleftrightarrow> tv = ''e''" using nul by (intro strncmp_5) simp_all
  have s: "strncmp tv ''s'' 5 = 0 \<longleftrightarrow> tv = ''s''" using nul by (intro strncmp_5) simp_all
  have str: "strncmp tv ''str'' 5 = 0 \<longleftrightarrow> tv = ''str''" using nul by (intro strncmp_5) simp_all
  show ?thesis
    unfolding type_def Let_def t option.sel n b d e s str strncmp_inlineStr numeric_tag_def
    by (cases "first_attribute ''s'' (cell c)") simp_all
qed

lemmas cell_eval = new_XlsxCell_def c_node_def first_attribute_def first_node_def parseRef_def
  is_digit_def is_upper_def row_def col_def

text \<open>
  C1, at an input where the code does not do what the property says. The classifier compares the type attribute
  with \<^verbatim>\<open>"inlineStr"\<close> over nine characters only: an attribute that merely starts with
  \<open>inlineStr\<close>, such as \<open>inlineStrX\<close>, is tagged as text and no warning is raised, while
  another unknown value, such as \<open>inlineSt\<close>, raises the warning with the coordinates and
  the value.
\<close>

theorem type_inlineStr_prefix:
  "new_XlsxCell (c_node ''A1'' (Some ''inlineStrX'') None) =
     Inr \<lparr>cell = c_node ''A1'' (Some ''inlineStrX'') None, location = (0, 0)\<rparr>
   \<and> type na stringTable dateStyles
        \<lparr>cell = c_node ''A1'' (Some ''inlineStrX'') None, location = (0, 0)\<rparr> = Inr ([], CELL_TEXT)
   \<and> type na stringTable dateStyles
        \<lparr>cell = c_node ''A1'' (Some ''inlineSt'') None, location = (0, 0)\<rparr> =
         Inr ([Unknown_type 1 1 ''inlineSt''], CELL_TEXT)"
  by (simp add: cell_eval type_def eval_nat_numeral)

text \<open>
  C2, at an input where the code does not do what the property says. With the type attribute \<open>s\<close>, the value \<open>5\<close>
  and a string table of one entry, the classifier raises the range error of
  \<^verbatim>\<open>std::vector::at\<close>: there is no warning and no tag.
\<close>

theorem type_shared_string_out_of_range:
  "new_XlsxCell (c_node ''A1'' (Some ''s'') (Some ''5'')) =
     Inr \<lparr>cell = c_node ''A1'' (Some ''s'') (Some ''5''), location = (0, 0)\<rparr>
   \<and> type na [''a''] dateStyles \<lparr>cell = c_node ''A1'' (Some ''s'') (Some ''5''), location = (0, 0)\<rparr> =
        Inl (Out_of_range 5 1)"
  by (simp add: cell_eval type_def eval_nat_numeral atoi_def strtol_def atoi_digits_def isspace_def vector_at_def)

text \<open>
  The same holds for every cell of type \<open>s\<close> whose index is outside the table.
\<close>

lemma type_index_outside_table:
  assumes "first_attribute ''t'' (cell c) = Some ''s''"
    and "first_node ''v'' (cell c) = Some v"
    and "sint (atoi (node_value v)) < 0 \<or> int (length stringTable) \<le> sint (atoi (node_value v))"
  shows "type na stringTable dateStyles c =
           Inl (Out_of_range (sint (atoi (node_value v))) (length stringTable))"
  using assms(3) by (auto simp: type_present [OF assms(1)] assms(2) vector_at_def)

text \<open>
  The generic accessor \<open>asCharSxp\<close> checks the index on the same cell and table: it
  raises the warning and returns the missing string.
\<close>

lemma asCharSxp_out_of_range:
  "asCharSxp na [''a''] \<lparr>cell = c_node ''A1'' (Some ''s'') (Some ''5''), location = (0, 0)\<rparr> =
        Inr ([Invalid_string_id 1 1 5], NA_STRING)"
  by (simp add: cell_eval asCharSxp_def stringFromTable_def eval_nat_numeral atoi_def strtol_def atoi_digits_def isspace_def vector_at_def)

section \<open>Properties of the accessors\<close>

text \<open>
  With a \<^verbatim>\<open>v\<close> child, \<open>asStdString\<close> returns its text, unless the type attribute is \<open>s\<close>:
  then the text is read as an index into the string table, and an index outside the
  table is the range error of \<^verbatim>\<open>std::vector::at\<close>.
\<close>

lemma asStdString_value:
  assumes "first_node ''v'' (cell c) = Some v"
  shows "first_attribute ''t'' (cell c) = None \<Longrightarrow> asStdString stringTable c = Inr (node_value v)"
    and "first_attribute ''t'' (cell c) = Some tv \<Longrightarrow> CHR 0x00 \<notin> set tv \<Longrightarrow> tv \<noteq> ''s'' \<Longrightarrow>
           asStdString stringTable c = Inr (node_value v)"
    and "first_attribute ''t'' (cell c) = Some ''s'' \<Longrightarrow>
           asStdString stringTable c = vector_at stringTable (sint (atoi (node_value v)))"
proof -
  show "first_attribute ''t'' (cell c) = None \<Longrightarrow> asStdString stringTable c = Inr (node_value v)"
    by (simp add: asStdString_def assms)
next
  assume t: "first_attribute ''t'' (cell c) = Some tv" and nul: "CHR 0x00 \<notin> set tv"
    and ne: "tv \<noteq> ''s''"
  have "strncmp tv ''s'' 3 = 0 \<longleftrightarrow> tv = ''s''"
    using nul by (intro strncmp_exact) simp_all
  with ne show "asStdString stringTable c = Inr (node_value v)"
    by (simp add: asStdString_def assms t)
next
  assume t: "first_attribute ''t'' (cell c) = Some ''s''"
  have "strncmp ''s'' ''s'' 3 = 0"
    by (simp add: eval_nat_numeral)
  then show "asStdString stringTable c = vector_at stringTable (sint (atoi (node_value v)))"
    by (simp add: asStdString_def assms t Let_def)
qed

text \<open>
  C10. For a cell without a \<^verbatim>\<open>v\<close> child \<open>asStdString\<close> returns the text \<open>[NULL]\<close>, no
  error and no missing marker: the same result as for a cell whose text is \<open>[NULL]\<close>.
\<close>

theorem asStdString_missing_value:
  "(first_node ''v'' (cell c) = None \<longrightarrow> asStdString stringTable c = Inr ''[NULL]'')
   \<and> asStdString stringTable \<lparr>cell = c_node ''A1'' None None, location = (0, 0)\<rparr> = Inr ''[NULL]''
   \<and> asStdString stringTable \<lparr>cell = c_node ''A1'' None (Some ''[NULL]''), location = (0, 0)\<rparr> =
        Inr ''[NULL]''"
  by (simp add: asStdString_def c_node_def first_node_def first_attribute_def Let_def)

theorem asStdString_missing_value_witness:
  "first_node ''v'' (c_node ''B7'' (Some ''s'') None) = None
   \<and> asStdString [''a'', ''b''] \<lparr>cell = c_node ''B7'' (Some ''s'') None, location = (6, 1)\<rparr> =
        Inr ''[NULL]''"
proof -
  let ?c = "\<lparr>cell = c_node ''B7'' (Some ''s'') None, location = (6, 1)\<rparr>"
  have v: "first_node ''v'' (c_node ''B7'' (Some ''s'') None) = None"
    by (simp add: c_node_def first_node_def)
  have "first_node ''v'' (cell ?c) = None \<longrightarrow> asStdString [''a'', ''b''] ?c = Inr ''[NULL]''"
    using asStdString_missing_value [of ?c "[''a'', ''b'']"] by (elim conjE)
  moreover have "first_node ''v'' (cell ?c) = None" using v by simp
  ultimately have "asStdString [''a'', ''b''] ?c = Inr ''[NULL]''" by (rule mp)
  with v show ?thesis by (intro conjI)
qed

end
